theory Spec2Isabelle
  imports Main
begin

section \<open>JavaScript numbers and arrays as used by the score calculator\<close>

text \<open>
  Every throw value of \<^verbatim>\<open>script.js\<close> comes from \<^verbatim>\<open>parseInt(value, 10)\<close>: it is an
  integer or \<^verbatim>\<open>NaN\<close>. A number is modelled as \<open>int option\<close>, \<open>None\<close> being
  \<^verbatim>\<open>NaN\<close>. Reading an index that the array does not hold gives \<^verbatim>\<open>undefined\<close>, which the
  operators used here (\<^verbatim>\<open><\<close>, \<^verbatim>\<open>>\<close>, \<^verbatim>\<open>>=\<close>, \<^verbatim>\<open>+\<close>, \<^verbatim>\<open>isNaN\<close>) treat exactly as
  \<^verbatim>\<open>NaN\<close>, so an array is a map from indices to numbers and an absent index is \<open>None\<close>
  as well. Writing to any index stores the value there, as a JavaScript array does.
  The integers are unbounded: the values that the functions below add are throws clamped
  to the strike value, and their sums are exact in double precision for any strike value
  below \<open>2 ^ 51\<close>. The frame count (\<^verbatim>\<open>frames\<close>) is a natural number and the strike value
  (\<^verbatim>\<open>strike\<close>) an integer, both read from the settings form.
\<close>

type_synonym num = "int option"
type_synonym throws = "nat \<Rightarrow> num"

definition isNaN :: "num \<Rightarrow> bool" where
  "isNaN v = (v = None)"

fun js_add :: "num \<Rightarrow> num \<Rightarrow> num" where
  "js_add (Some a) (Some b) = Some (a + b)"
| "js_add _ _ = None"

fun js_sub :: "num \<Rightarrow> num \<Rightarrow> num" where
  "js_sub (Some a) (Some b) = Some (a - b)"
| "js_sub _ _ = None"

text \<open>A comparison with \<^verbatim>\<open>NaN\<close> on either side is false.\<close>

fun js_lt :: "num \<Rightarrow> num \<Rightarrow> bool" where
  "js_lt (Some a) (Some b) = (a < b)"
| "js_lt _ _ = False"

fun js_gt :: "num \<Rightarrow> num \<Rightarrow> bool" where
  "js_gt (Some a) (Some b) = (a > b)"
| "js_gt _ _ = False"

fun js_ge :: "num \<Rightarrow> num \<Rightarrow> bool" where
  "js_ge (Some a) (Some b) = (a \<ge> b)"
| "js_ge _ _ = False"

section \<open>validate\<close>

text \<open>
  The body of the first loop of \<^verbatim>\<open>validate\<close>:
  \<^verbatim>\<open>if (input[throws] < 0) input[throws] = 0;
  if (input[throws] > strike) input[throws] = strike;\<close>
\<close>

definition clamp_slot :: "int \<Rightarrow> nat \<Rightarrow> throws \<Rightarrow> throws" where
  "clamp_slot strike throws input =
     (let input1 = (if js_lt (input throws) (Some 0) then input(throws := Some 0) else input)
      in if js_gt (input1 throws) (Some strike) then input1(throws := Some strike) else input1)"

text \<open>\<^verbatim>\<open>for (let throws = 1; throws <= frames * 2 + 1; throws++)\<close>\<close>

function clamp_loop :: "nat \<Rightarrow> int \<Rightarrow> nat \<Rightarrow> throws \<Rightarrow> throws" where
  "clamp_loop frames strike throws input =
     (if throws \<le> frames * 2 + 1
      then clamp_loop frames strike (throws + 1) (clamp_slot strike throws input)
      else input)"
  by pat_completeness auto
termination
  by (relation "measure (\<lambda>(frames, strike, throws, input). frames * 2 + 2 - throws)") auto

declare clamp_loop.simps [simp del]

text \<open>
  The two repairs that close an iteration of the second loop:
  \<^verbatim>\<open>if (input[frame * 2 - 1] + input[frame * 2] > strike)
    input[frame * 2] = strike - input[frame * 2 - 1];
  if (input[frame * 2 - 1] >= strike) input[frame * 2] = NaN;\<close>
\<close>

definition repair_frame :: "int \<Rightarrow> nat \<Rightarrow> throws \<Rightarrow> throws" where
  "repair_frame strike frame input =
     (let input1 = (if js_gt (js_add (input (frame * 2 - 1)) (input (frame * 2))) (Some strike)
                    then input(frame * 2 := js_sub (Some strike) (input (frame * 2 - 1)))
                    else input)
      in if js_ge (input1 (frame * 2 - 1)) (Some strike) then input1(frame * 2 := None)
         else input1)"

text \<open>
  \<^verbatim>\<open>for (let frame = 1; frame <= frames; frame++)\<close>. In the last frame the bonus slot
  is erased when the two throws sum below the strike value; otherwise the loop is left
  by \<^verbatim>\<open>break\<close>, before the two repairs.
\<close>

function repair_loop :: "nat \<Rightarrow> int \<Rightarrow> nat \<Rightarrow> throws \<Rightarrow> throws" where
  "repair_loop frames strike frame input =
     (if frame \<le> frames then
        (if frame = frames then
           (if js_lt (js_add (input (frame * 2 - 1)) (input (frame * 2))) (Some strike)
            then repair_loop frames strike (frame + 1)
                   (repair_frame strike frame (input(frame * 2 + 1 := None)))
            else input)
         else repair_loop frames strike (frame + 1) (repair_frame strike frame input))
      else input)"
  by pat_completeness auto
termination
  by (relation "measure (\<lambda>(frames, strike, frame, input). frames + 1 - frame)") auto

declare repair_loop.simps [simp del]

definition validate :: "nat \<Rightarrow> int \<Rightarrow> throws \<Rightarrow> throws" where
  "validate frames strike input = repair_loop frames strike 1 (clamp_loop frames strike 1 input)"

section \<open>throwString\<close>

text \<open>
  \<^verbatim>\<open>Number.prototype.toString()\<close> of an integer: its decimal digits, after a minus
  sign when it is negative.
\<close>

fun digits :: "nat \<Rightarrow> string" where
  "digits n =
     (if n < 10 then [char_of (48 + n)] else digits (n div 10) @ [char_of (48 + n mod 10)])"

declare digits.simps [simp del]

definition toString :: "int \<Rightarrow> string" where
  "toString v = (if v < 0 then CHR ''-'' # digits (nat (- v)) else digits (nat v))"

text \<open>\<^verbatim>\<open>input[throws - 1]\<close>; index \<open>-1\<close> is not an index of the array.\<close>

definition before :: "throws \<Rightarrow> nat \<Rightarrow> num" where
  "before input throws = (if throws = 0 then None else input (throws - 1))"

definition throwString :: "nat \<Rightarrow> int \<Rightarrow> throws \<Rightarrow> nat \<Rightarrow> string" where
  "throwString frames strike input throws =
     (case input throws of
        None \<Rightarrow> ''&nbsp;''
      | Some currentThrow \<Rightarrow>
          if throws mod 2 = 1 \<or> (throws = frames * 2 \<and> js_ge (before input throws) (Some strike))
          then (if currentThrow \<ge> strike then ''X''
                else if currentThrow = 0 then ''G''
                else toString currentThrow)
          else if js_ge (js_add (Some currentThrow) (before input throws)) (Some strike) then ''/''
          else if currentThrow = 0 then ''-''
          else toString currentThrow)"

section \<open>frameTotal\<close>

datatype error = InvalidFrameAccess

text \<open>
  The lookahead helper \<^verbatim>\<open>next\<close> of \<^verbatim>\<open>frameTotal\<close>:
  \<^verbatim>\<open>if (isNaN(input[throws + 1])) return next(throws + 1);
  if (throws > frames * 2 + 1) throw new Error("Invalid frame access");
  return throws + 1;\<close>
  (named \<open>next_throw\<close> here, \<open>next\<close> being a keyword of the proof language).
  The recursion has no measure that decreases, so the helper is a partial function:
  \<open>None\<close> is a call that does not return, \<open>Some (Inl e)\<close> a thrown error and
  \<open>Some (Inr n)\<close> the returned index. The language puts no bound on the depth of the
  recursion, and the recursive call is a tail call of strict-mode code; the model has no
  bound either. What an engine does when its call stack is full is not part of the model.
\<close>

partial_function (option) next_throw :: "nat \<Rightarrow> throws \<Rightarrow> nat \<Rightarrow> (error + nat) option" where
  "next_throw frames input throws =
     (if isNaN (input (throws + 1)) then next_throw frames input (throws + 1)
      else if throws > frames * 2 + 1 then Some (Inl InvalidFrameAccess)
      else Some (Inr (throws + 1)))"

definition capStrike :: "int \<Rightarrow> num \<Rightarrow> num" where
  "capStrike strike v = (if js_gt v (Some strike) then Some strike else v)"

text \<open>Sequencing of calls that may throw or not return.\<close>

definition and_then :: "(error + 'a) option \<Rightarrow> ('a \<Rightarrow> (error + 'b) option) \<Rightarrow> (error + 'b) option" where
  "and_then m f = (case m of None \<Rightarrow> None | Some (Inl e) \<Rightarrow> Some (Inl e) | Some (Inr x) \<Rightarrow> f x)"

text \<open>
  The \<^verbatim>\<open>try\<close> block of one iteration of \<^verbatim>\<open>frameTotal\<close>: the value it pushes, or
  the error it throws.
\<close>

definition frame_score :: "nat \<Rightarrow> int \<Rightarrow> throws \<Rightarrow> nat \<Rightarrow> (error + num) option" where
  "frame_score frames strike input throws =
     (if js_ge (input throws) (Some strike) then
        and_then (next_throw frames input throws) (\<lambda>n1.
          let first = capStrike strike (input n1) in
          and_then (next_throw frames input throws) (\<lambda>m1.
          and_then (next_throw frames input m1) (\<lambda>n2.
            let second = capStrike strike (input n2) in
            Some (Inr (js_add (js_add (Some strike) first) second)))))
      else if js_ge (js_add (input (throws + 1)) (input throws)) (Some strike) then
        and_then (next_throw frames input throws) (\<lambda>m1.
        and_then (next_throw frames input m1) (\<lambda>n2.
          Some (Inr (js_add (Some strike) (capStrike strike (input n2))))))
      else if isNaN (input (throws + 1)) \<or> isNaN (input throws) then Some (Inr None)
      else Some (Inr (js_add (input throws) (input (throws + 1)))))"

text \<open>
  The two arrays \<^verbatim>\<open>frameTotal\<close> holds: its argument \<^verbatim>\<open>input\<close> and the local
  \<^verbatim>\<open>result\<close>. Every statement of the function that writes is a \<^verbatim>\<open>result.push\<close>.
\<close>

record scorer =
  input_array :: throws
  result_array :: "num list"

definition push :: "num \<Rightarrow> scorer \<Rightarrow> scorer" where
  "push v st = st\<lparr>result_array := result_array st @ [v]\<rparr>"

text \<open>One iteration: the \<^verbatim>\<open>try\<close> block, and \<^verbatim>\<open>catch { result.push(NaN); }\<close>.\<close>

definition frame_body :: "nat \<Rightarrow> int \<Rightarrow> nat \<Rightarrow> scorer \<Rightarrow> scorer option" where
  "frame_body frames strike throws st =
     (case frame_score frames strike (input_array st) throws of
        None \<Rightarrow> None
      | Some (Inl e) \<Rightarrow> Some (push None st)
      | Some (Inr v) \<Rightarrow> Some (push v st))"

text \<open>\<^verbatim>\<open>for (let throws = 1; throws <= frames * 2; throws += 2)\<close>\<close>

function frameTotal_loop :: "nat \<Rightarrow> int \<Rightarrow> nat \<Rightarrow> scorer \<Rightarrow> scorer option" where
  "frameTotal_loop frames strike throws st =
     (if throws \<le> frames * 2 then
        (case frame_body frames strike throws st of
           None \<Rightarrow> None
         | Some st' \<Rightarrow> frameTotal_loop frames strike (throws + 2) st')
      else Some st)"
  by pat_completeness auto
termination
  by (relation "measure (\<lambda>(frames, strike, throws, st). frames * 2 + 1 - throws)") auto

declare frameTotal_loop.simps [simp del]

definition frameTotal_run :: "nat \<Rightarrow> int \<Rightarrow> throws \<Rightarrow> scorer option" where
  "frameTotal_run frames strike input =
     frameTotal_loop frames strike 1 \<lparr>input_array = input, result_array = []\<rparr>"

definition frameTotal :: "nat \<Rightarrow> int \<Rightarrow> throws \<Rightarrow> num list option" where
  "frameTotal frames strike input = map_option result_array (frameTotal_run frames strike input)"

section \<open>The subtotal row and the total of drawScoreTable\<close>

text \<open>\<^verbatim>\<open>subtotal[k]\<close>: \<^verbatim>\<open>undefined\<close> beyond the end of the array.\<close>

definition at_index :: "num list \<Rightarrow> nat \<Rightarrow> num" where
  "at_index xs k = (if k < length xs then xs ! k else None)"

text \<open>
  The cells of the subtotal row, in the order they are appended:
  \<^verbatim>\<open>for (let frame = 1, sum = 0; frame <= frames; frame++)
    ... isNaN(subtotal[frame - 1]) ? "&nbsp;" : (sum += subtotal[frame - 1]) ...\<close>
\<close>

function subtotal_cells :: "nat \<Rightarrow> num list \<Rightarrow> nat \<Rightarrow> int \<Rightarrow> string list" where
  "subtotal_cells frames subtotal frame sum_acc =
     (if frame \<le> frames then
        (case at_index subtotal (frame - 1) of
           None \<Rightarrow> ''&nbsp;'' # subtotal_cells frames subtotal (frame + 1) sum_acc
         | Some v \<Rightarrow> toString (sum_acc + v) # subtotal_cells frames subtotal (frame + 1) (sum_acc + v))
      else [])"
  by pat_completeness auto
termination
  by (relation "measure (\<lambda>(frames, subtotal, frame, sum_acc). frames + 1 - frame)") auto

declare subtotal_cells.simps [simp del]

text \<open>\<^verbatim>\<open>subtotal.reduce((sum, value) => sum + value, 0)\<close> and the cell that shows it.\<close>

definition total :: "num list \<Rightarrow> num" where
  "total subtotal = foldl js_add (Some 0) subtotal"

definition total_cell :: "num list \<Rightarrow> string" where
  "total_cell subtotal = (case total subtotal of None \<Rightarrow> ''&nbsp;'' | Some v \<Rightarrow> toString v)"

section \<open>Values and example games used to state the properties\<close>

text \<open>
  What the first loop of \<^verbatim>\<open>validate\<close> leaves in a slot that held \<open>v\<close>, and what the
  two repairs leave in the second slot of a frame whose slots held \<open>a\<close> and \<open>b\<close>.
\<close>

definition clampValue :: "int \<Rightarrow> num \<Rightarrow> num" where
  "clampValue strike v =
     (let v1 = (if js_lt v (Some 0) then Some 0 else v)
      in if js_gt v1 (Some strike) then Some strike else v1)"

definition repairValue :: "int \<Rightarrow> num \<Rightarrow> num \<Rightarrow> num" where
  "repairValue strike a b =
     (if js_ge a (Some strike) then None
      else if js_gt (js_add a b) (Some strike) then js_sub (Some strike) a
      else b)"

text \<open>The test of the last frame: its two throws sum below the strike value.\<close>

definition last_open :: "nat \<Rightarrow> int \<Rightarrow> throws \<Rightarrow> bool" where
  "last_open frames strike input =
     js_lt (js_add (input (frames * 2 - 1)) (input (frames * 2))) (Some strike)"

text \<open>The sum of the subtotals that are complete, and the cell of the subtotal row at index \<open>k\<close>.\<close>

fun complete_sum :: "num list \<Rightarrow> int" where
  "complete_sum [] = 0"
| "complete_sum (None # xs) = complete_sum xs"
| "complete_sum (Some v # xs) = v + complete_sum xs"

definition shown_cell :: "num list \<Rightarrow> nat \<Rightarrow> string" where
  "shown_cell subtotal k =
     (case at_index subtotal k of
        None \<Rightarrow> ''&nbsp;''
      | Some v \<Rightarrow> toString (complete_sum (take (Suc k) subtotal)))"

text \<open>
  Ten frames with a strike value of ten: a strike in every frame and two bonus strikes; and
  a game whose only throw so far is a strike in the first frame.
\<close>

definition all_strikes :: throws where
  "all_strikes = (\<lambda>i. if (odd i \<and> i \<le> 19) \<or> i = 20 \<or> i = 21 then Some 10 else None)"

definition strike_only :: throws where
  "strike_only = (\<lambda>i. None)(1 := Some 10)"

text \<open>Two frames: the first frame lacks its second throw, the second frame is 3 and 4.\<close>

definition second_frame_only :: throws where
  "second_frame_only = (\<lambda>i. None)(1 := Some 3, 3 := Some 3, 4 := Some 4)"

text \<open>One frame: a strike, then 5 in the second slot.\<close>

definition last_strike :: throws where
  "last_strike = (\<lambda>i. None)(1 := Some 10, 2 := Some 5)"

text \<open>Two frames: 7 and 8 in the first, 12 and 4 in the second.\<close>

definition over_frame :: throws where
  "over_frame = (\<lambda>i. None)(1 := Some 7, 2 := Some 8, 3 := Some 12, 4 := Some 4)"

text \<open>Ten frames: the last frame is 3 and 4, and 9 was entered in the bonus slot.\<close>

definition open_last :: throws where
  "open_last = (\<lambda>i. None)(19 := Some 3, 20 := Some 4, 21 := Some 9)"

text \<open>One frame: -5 and 12 entered as its throws, 9 in the bonus slot.\<close>

definition negative_first :: throws where
  "negative_first = (\<lambda>i. None)(1 := Some (- 5), 2 := Some 12, 3 := Some 9)"

definition too_big :: throws where
  "too_big = (\<lambda>i. None)(1 := Some 15)"

definition spare_frame :: throws where
  "spare_frame = (\<lambda>i. None)(1 := Some 5, 2 := Some 5, 3 := Some 3)"

definition open_frame :: throws where
  "open_frame = (\<lambda>i. None)(1 := Some 3, 2 := Some 4)"


section \<open>validate, slot by slot\<close>

lemma clamp_slot_apply:
  "clamp_slot strike t input i = (if i = t then clampValue strike (input t) else input i)"
  by (simp add: clamp_slot_def clampValue_def Let_def)

lemma clamp_loop_apply:
  "clamp_loop frames strike t input i =
     (if t \<le> i \<and> i \<le> frames * 2 + 1 then clampValue strike (input i) else input i)"
proof (induction frames strike t input rule: clamp_loop.induct)
  case (1 frames strike throws input)
  show ?case
  proof (cases "throws \<le> frames * 2 + 1")
    case True
    define input' where "input' = clamp_slot strike throws input"
    have step: "clamp_loop frames strike throws input i = clamp_loop frames strike (throws + 1) input' i"
      using True by (subst clamp_loop.simps) (simp add: input'_def)
    have ih: "clamp_loop frames strike (throws + 1) input' i =
        (if throws + 1 \<le> i \<and> i \<le> frames * 2 + 1 then clampValue strike (input' i) else input' i)"
      unfolding input'_def by (rule "1.IH"[OF True])
    have at: "input' i = (if i = throws then clampValue strike (input throws) else input i)"
      by (simp add: input'_def clamp_slot_apply)
    show ?thesis
      using True unfolding step ih at by auto
  next
    case False
    then show ?thesis by (subst clamp_loop.simps) auto
  qed
qed

lemma repair_frame_apply:
  "1 \<le> frame \<Longrightarrow> repair_frame strike frame input i =
     (if i = frame * 2 then repairValue strike (input (frame * 2 - 1)) (input (frame * 2))
      else input i)"
  by (auto simp: repair_frame_def repairValue_def Let_def)

lemma repair_loop_apply:
  "1 \<le> k \<Longrightarrow> repair_loop frames strike k input i =
     (if even i \<and> k * 2 \<le> i \<and> i < frames * 2 then repairValue strike (input (i - 1)) (input i)
      else if k \<le> frames \<and> last_open frames strike input \<and> i = frames * 2
        then repairValue strike (input (i - 1)) (input i)
      else if k \<le> frames \<and> last_open frames strike input \<and> i = frames * 2 + 1 then None
      else input i)"
proof (induction frames strike k input arbitrary: i rule: repair_loop.induct)
  case (1 frames strike frame input)
  have past: "repair_loop frames strike (Suc frames) inp j = inp j" for inp j
    by (subst repair_loop.simps) simp
  show ?case
  proof (cases "frame \<le> frames")
    case False
    then show ?thesis by (subst repair_loop.simps) auto
  next
    case le: True
    show ?thesis
    proof (cases "frame = frames")
      case True
      show ?thesis
      proof (cases "last_open frames strike input")
        case lo: True
        have "repair_loop frames strike frame input i =
            repair_frame strike frames (input(frames * 2 + 1 := None)) i"
          using True lo by (subst repair_loop.simps) (simp add: last_open_def past)
        also have "\<dots> = (if i = frames * 2 then repairValue strike (input (frames * 2 - 1)) (input (frames * 2))
            else if i = frames * 2 + 1 then None else input i)"
          using True "1.prems" by (auto simp: repair_frame_apply)
        finally show ?thesis using True lo by auto
      next
        case lo: False
        have "repair_loop frames strike frame input i = input i"
          using True lo by (subst repair_loop.simps) (simp add: last_open_def)
        then show ?thesis using True lo by auto
      qed
    next
      case False
      with le have lt: "frame < frames" by simp
      define input' where "input' = repair_frame strike frame input"
      have at: "input' j = (if j = frame * 2 then repairValue strike (input (frame * 2 - 1)) (input (frame * 2))
            else input j)" for j
        using "1.prems" by (simp add: input'_def repair_frame_apply)
      have step: "repair_loop frames strike frame input i = repair_loop frames strike (frame + 1) input' i"
        using lt by (subst repair_loop.simps) (simp add: input'_def)
      have ih: "repair_loop frames strike (frame + 1) input' i =
         (if even i \<and> (frame + 1) * 2 \<le> i \<and> i < frames * 2 then repairValue strike (input' (i - 1)) (input' i)
          else if frame + 1 \<le> frames \<and> last_open frames strike input' \<and> i = frames * 2
            then repairValue strike (input' (i - 1)) (input' i)
          else if frame + 1 \<le> frames \<and> last_open frames strike input' \<and> i = frames * 2 + 1 then None
          else input' i)"
        unfolding input'_def by (rule "1.IH"(2)[OF le False]) simp
      have ne: "frames * 2 - 1 \<noteq> frame * 2" "frames * 2 \<noteq> frame * 2"
        using lt "1.prems" by arith+
      have lo: "last_open frames strike input' = last_open frames strike input"
        using ne by (simp add: last_open_def at)
      have e: "even i \<Longrightarrow> frame * 2 \<le> i \<Longrightarrow> i \<noteq> frame * 2 \<Longrightarrow> (frame + 1) * 2 \<le> i"
        by (auto elim!: evenE)
      show ?thesis
        unfolding step ih lo using lt "1.prems" e by (auto simp: at)
    qed
  qed
qed

lemma validate_apply:
  "validate frames strike input i =
     (if even i \<and> 2 \<le> i \<and> i < frames * 2
        then repairValue strike (clamp_loop frames strike 1 input (i - 1)) (clamp_loop frames strike 1 input i)
      else if 1 \<le> frames \<and> last_open frames strike (clamp_loop frames strike 1 input) \<and> i = frames * 2
        then repairValue strike (clamp_loop frames strike 1 input (i - 1)) (clamp_loop frames strike 1 input i)
      else if 1 \<le> frames \<and> last_open frames strike (clamp_loop frames strike 1 input) \<and> i = frames * 2 + 1
        then None
      else clamp_loop frames strike 1 input i)"
  unfolding validate_def by (subst repair_loop_apply) simp_all

lemma clampValue_Some:
  "clampValue s (Some x) = Some (if x < 0 then (if 0 > s then s else 0) else if x > s then s else x)"
  by (simp add: clampValue_def)

lemma clampValue_None: "clampValue s None = None"
  by (simp add: clampValue_def)

lemma clampValue_idem: "clampValue s (clampValue s x) = clampValue s x"
  by (cases x) (auto simp: clampValue_Some clampValue_None)

lemma clampValue_repairValue:
  "clampValue s (repairValue s (clampValue s x) (clampValue s y)) =
     repairValue s (clampValue s x) (clampValue s y)"
  by (cases x; cases y) (auto simp: clampValue_Some clampValue_None repairValue_def)

lemma repairValue_idem: "repairValue s a (repairValue s a b) = repairValue s a b"
  by (cases a; cases b) (auto simp: repairValue_def)

lemma clamp_loop_validate:
  "clamp_loop frames strike 1 (validate frames strike input) = validate frames strike input"
proof
  fix i
  show "clamp_loop frames strike 1 (validate frames strike input) i = validate frames strike input i"
    apply (subst clamp_loop_apply)
    apply (simp only: validate_apply clamp_loop_apply)
    apply (auto simp: clampValue_idem clampValue_repairValue clampValue_None)
    done
qed

lemma repair_loop_validate:
  "repair_loop frames strike 1 (validate frames strike input) = validate frames strike input"
proof
  fix i
  define c where "c = clamp_loop frames strike 1 input"
  define v where "v = validate frames strike input"
  have v_at: "v j =
     (if even j \<and> 2 \<le> j \<and> j < frames * 2 then repairValue strike (c (j - 1)) (c j)
      else if 1 \<le> frames \<and> last_open frames strike c \<and> j = frames * 2
        then repairValue strike (c (j - 1)) (c j)
      else if 1 \<le> frames \<and> last_open frames strike c \<and> j = frames * 2 + 1 then None
      else c j)" for j
    unfolding v_def c_def by (rule validate_apply)
  have r_at: "repair_loop frames strike 1 v i =
     (if even i \<and> 2 \<le> i \<and> i < frames * 2 then repairValue strike (v (i - 1)) (v i)
      else if 1 \<le> frames \<and> last_open frames strike v \<and> i = frames * 2
        then repairValue strike (v (i - 1)) (v i)
      else if 1 \<le> frames \<and> last_open frames strike v \<and> i = frames * 2 + 1 then None
      else v i)"
    by (subst repair_loop_apply) simp_all
  have odd_keep: "v (j - 1) = c (j - 1)" if "even j" "2 \<le> j" "j \<le> frames * 2" for j
  proof -
    have o: "odd (j - 1)" using that by simp
    have "j - 1 \<noteq> frames * 2" using that by presburger
    moreover have "j - 1 \<noteq> frames * 2 + 1" using that by simp
    ultimately show ?thesis using o v_at[of "j - 1"] by simp
  qed
  have lo: "last_open frames strike c" if "1 \<le> frames" "last_open frames strike v"
    using that odd_keep[of "frames * 2"] v_at[of "frames * 2"]
    by (cases "c (frames * 2 - 1)"; cases "c (frames * 2)")
       (auto simp: last_open_def repairValue_def split: if_splits)
  have main: "repair_loop frames strike 1 v i = v i"
  proof (cases "even i \<and> 2 \<le> i \<and> i < frames * 2")
    case True
    then have "repair_loop frames strike 1 v i = repairValue strike (v (i - 1)) (v i)"
      using r_at by simp
    also have "v (i - 1) = c (i - 1)" using True odd_keep[of i] by simp
    also have "v i = repairValue strike (c (i - 1)) (c i)" using True v_at[of i] by simp
    finally show ?thesis using True v_at[of i] by (simp add: repairValue_idem)
  next
    case False
    show ?thesis
    proof (cases "1 \<le> frames \<and> last_open frames strike v \<and> (i = frames * 2 \<or> i = frames * 2 + 1)")
      case True
      then have loc: "last_open frames strike c" using lo by simp
      have keep: "v (frames * 2 - 1) = c (frames * 2 - 1)"
        using True odd_keep[of "frames * 2"] by simp
      from True have "i = frames * 2 \<or> i = frames * 2 + 1" by simp
      then show ?thesis
      proof
        assume i: "i = frames * 2"
        have vi: "v i = repairValue strike (c (i - 1)) (c i)"
          using True loc i v_at[of i] by simp
        have "repair_loop frames strike 1 v i = repairValue strike (v (i - 1)) (v i)"
          using True i r_at by simp
        also have "\<dots> = repairValue strike (c (i - 1)) (repairValue strike (c (i - 1)) (c i))"
          using keep i vi by simp
        finally show ?thesis using vi by (simp add: repairValue_idem)
      next
        assume i: "i = frames * 2 + 1"
        have "repair_loop frames strike 1 v i = None"
          using True i r_at by simp
        then show ?thesis using True loc i v_at[of i] by simp
      qed
    next
      case F2: False
      then show ?thesis using False r_at by auto
    qed
  qed
  then show "repair_loop frames strike 1 (validate frames strike input) i = validate frames strike input i"
    by (simp only: v_def)
qed

text \<open>
  C7. The Validator is idempotent: validating a sequence that validation produced leaves it
  as it is, for every throw sequence, frame count and strike value.
\<close>

theorem validate_idempotent:
  "validate frames strike (validate frames strike input) = validate frames strike input"
proof -
  have "validate frames strike (validate frames strike input) =
        repair_loop frames strike 1 (clamp_loop frames strike 1 (validate frames strike input))"
    by (simp add: validate_def)
  also have "\<dots> = repair_loop frames strike 1 (validate frames strike input)"
    by (simp only: clamp_loop_validate)
  finally show ?thesis by (simp only: repair_loop_validate)
qed

lemma clampValue_range:
  "0 \<le> s \<Longrightarrow> clampValue s x = Some v \<Longrightarrow> 0 \<le> v \<and> v \<le> s"
  by (cases x) (auto simp: clampValue_Some clampValue_None split: if_splits)

lemma repairValue_range:
  assumes "0 \<le> s" "repairValue s (clampValue s x) (clampValue s y) = Some v"
  shows "0 \<le> v \<and> v \<le> s"
  using assms
  by (cases x; cases y) (auto simp: clampValue_Some clampValue_None repairValue_def split: if_splits)

text \<open>
  C9. With a positive strike value, every slot \<open>1 .. frames * 2 + 1\<close> of the validated
  sequence that holds a recorded value \<open>v\<close> has \<open>0 \<le> v \<le> strike\<close>, whether the value
  comes from the clamp pass or from the reduction of a second throw.
\<close>

theorem validate_clamp_invariant:
  assumes "0 < strike" "1 \<le> i" "i \<le> frames * 2 + 1" "validate frames strike input i = Some v"
  shows "0 \<le> v \<and> v \<le> strike"
proof -
  have s: "0 \<le> strike" using assms(1) by simp
  have c: "clamp_loop frames strike 1 input j = clampValue strike (input j)"
    if "1 \<le> j" "j \<le> frames * 2 + 1" for j
    using that by (simp add: clamp_loop_apply)
  show ?thesis
  proof (cases "(even i \<and> 2 \<le> i \<and> i < frames * 2) \<or>
                (1 \<le> frames \<and> last_open frames strike (clamp_loop frames strike 1 input) \<and> i = frames * 2)")
    case True
    then have "validate frames strike input i =
        repairValue strike (clamp_loop frames strike 1 input (i - 1)) (clamp_loop frames strike 1 input i)"
      by (auto simp: validate_apply)
    moreover have "1 \<le> i - 1" "i - 1 \<le> frames * 2 + 1" using True by auto
    ultimately have "repairValue strike (clampValue strike (input (i - 1))) (clampValue strike (input i)) = Some v"
      using assms c[of "i - 1"] c[of i] by simp
    then show ?thesis by (rule repairValue_range[OF s])
  next
    case False
    then have "validate frames strike input i = None \<or>
       validate frames strike input i = clamp_loop frames strike 1 input i"
      by (auto simp: validate_apply)
    then have "clampValue strike (input i) = Some v"
      using assms c[of i] by auto
    then show ?thesis by (rule clampValue_range[OF s])
  qed
qed

text \<open>Witness of C9: one frame, 15 entered as the first throw, clamped to 10.\<close>

theorem validate_clamp_invariant_witness:
  "(0::int) < 10 \<and> (1::nat) \<le> 1 \<and> (1::nat) \<le> 1 * 2 + 1 \<and> validate 1 10 too_big 1 = Some 10 \<and>
   (0::int) \<le> 10 \<and> (10::int) \<le> 10"
proof -
  have v: "validate 1 10 too_big 1 = Some 10"
    by (simp add: validate_apply clamp_loop_apply clampValue_def too_big_def)
  show ?thesis using validate_clamp_invariant[of 10 1 1 too_big 10] v by simp
qed

section \<open>The repairs of validate, frame by frame\<close>

lemma validate_repairs_regular_frames:
  assumes "1 \<le> f" "f < frames"
  shows "validate frames strike input (f * 2 - 1) = clamp_loop frames strike 1 input (f * 2 - 1) \<and>
    validate frames strike input (f * 2) =
      (if js_ge (clamp_loop frames strike 1 input (f * 2 - 1)) (Some strike) then None
       else if js_gt (js_add (clamp_loop frames strike 1 input (f * 2 - 1))
                             (clamp_loop frames strike 1 input (f * 2))) (Some strike)
         then js_sub (Some strike) (clamp_loop frames strike 1 input (f * 2 - 1))
       else clamp_loop frames strike 1 input (f * 2))"
proof -
  have o: "odd (f * 2 - 1)" using assms by simp
  have "f * 2 - 1 \<noteq> frames * 2" using assms by presburger
  moreover have "f * 2 - 1 \<noteq> frames * 2 + 1" using assms by presburger
  ultimately have first: "validate frames strike input (f * 2 - 1) = clamp_loop frames strike 1 input (f * 2 - 1)"
    using o validate_apply[of frames strike input "f * 2 - 1"] by simp
  have "even (f * 2) \<and> 2 \<le> f * 2 \<and> f * 2 < frames * 2" using assms by simp
  then have second: "validate frames strike input (f * 2) =
      repairValue strike (clamp_loop frames strike 1 input (f * 2 - 1)) (clamp_loop frames strike 1 input (f * 2))"
    using validate_apply[of frames strike input "f * 2"] by simp
  show ?thesis using first second by (simp add: repairValue_def)
qed

lemma last_frame_strike_keeps_second:
  assumes "0 < strike" "1 \<le> frames"
    and "js_ge (clamp_loop frames strike 1 input (frames * 2 - 1)) (Some strike)"
  shows "validate frames strike input (frames * 2) = clamp_loop frames strike 1 input (frames * 2)"
proof -
  have c: "clamp_loop frames strike 1 input j = clampValue strike (input j)"
    if "1 \<le> j" "j \<le> frames * 2 + 1" for j
    using that by (simp add: clamp_loop_apply)
  have "\<not> last_open frames strike (clamp_loop frames strike 1 input)"
    using assms c[of "frames * 2 - 1"] c[of "frames * 2"]
    by (cases "input (frames * 2 - 1)"; cases "input (frames * 2)")
       (auto simp: last_open_def clampValue_Some clampValue_None split: if_splits)
  then show ?thesis
    using validate_apply[of frames strike input "frames * 2"] by simp
qed

lemma validate_last_strike: "validate 1 10 last_strike = last_strike"
proof
  fix i
  show "validate 1 10 last_strike i = last_strike i"
    by (auto simp: validate_apply clamp_loop_apply last_strike_def clampValue_def
        last_open_def repairValue_def)
qed

text \<open>
  C2, as stated, fails in the last frame: with one frame and a strike value of ten, a strike
  followed by 5 in the second slot is validated to itself, so the first throw of the last
  frame is a recorded value that reaches the strike value and the second throw is recorded.
\<close>

theorem last_frame_strike_counterexample:
  "validate 1 10 last_strike (1 * 2 - 1) = Some 10 \<and> validate 1 10 last_strike (1 * 2) = Some 5"
  unfolding validate_last_strike by (simp add: last_strike_def)

text \<open>
  C2, amended. In every frame \<open>f\<close> but the last, validation keeps the clamped first throw
  and leaves in the second slot: nothing when the first throw reaches the strike value;
  otherwise the strike value minus the first throw when both throws are recorded and their
  clamped values sum above the strike value; otherwise the clamped second throw. In the
  last frame, with a positive strike value, a first throw that reaches the strike value
  leaves the second slot with its clamped value.
\<close>

theorem validate_repair_rule:
  "(1 \<le> f \<and> f < frames \<longrightarrow>
      validate frames strike input (f * 2 - 1) = clamp_loop frames strike 1 input (f * 2 - 1) \<and>
      validate frames strike input (f * 2) =
        (if js_ge (clamp_loop frames strike 1 input (f * 2 - 1)) (Some strike) then None
         else if js_gt (js_add (clamp_loop frames strike 1 input (f * 2 - 1))
                               (clamp_loop frames strike 1 input (f * 2))) (Some strike)
           then js_sub (Some strike) (clamp_loop frames strike 1 input (f * 2 - 1))
         else clamp_loop frames strike 1 input (f * 2))) \<and>
   (0 < strike \<and> 1 \<le> frames \<and>
    js_ge (clamp_loop frames strike 1 input (frames * 2 - 1)) (Some strike) \<longrightarrow>
      validate frames strike input (frames * 2) = clamp_loop frames strike 1 input (frames * 2))"
  using validate_repairs_regular_frames[of f frames strike input]
    last_frame_strike_keeps_second[of strike frames input]
  by blast

text \<open>
  Witness of C2: two frames, 7 and 8 in the first (the 8 is reduced to 3), 12 and 4 in the
  second (the 12 is clamped to a strike, the 4 stays).
\<close>

theorem validate_repair_rule_witness:
  "validate 2 10 over_frame 1 = Some 7 \<and> validate 2 10 over_frame 2 = Some 3 \<and>
   validate 2 10 over_frame 4 = Some 4"
  using validate_repair_rule[of 1 2 10 over_frame]
  by (simp add: clamp_loop_apply clampValue_def over_frame_def)

text \<open>
  C8, as stated, fails on the throws as entered: with one frame and a strike value of ten,
  the throws -5 and 12 are both recorded and sum to 7, below the strike value, yet the 9 of
  the bonus slot is kept. The clamp pass runs first and turns the throws into 0 and 10,
  which sum to the strike value.
\<close>

theorem raw_sum_below_strike_counterexample:
  "negative_first (1 * 2 - 1) = Some (- 5) \<and> negative_first (1 * 2) = Some 12 \<and>
   (- 5 :: int) + 12 < 10 \<and> validate 1 10 negative_first (1 * 2 + 1) = Some 9"
  by (simp add: validate_apply clamp_loop_apply clampValue_def last_open_def negative_first_def)

text \<open>
  C8, amended. With at least one frame, the bonus slot of the validated sequence is
  unrecorded when the two throws of the last frame, as the clamp pass leaves them (a
  negative value raised to 0, a value above the strike value lowered to it), are both
  recorded and sum below the strike value, whatever was entered in the bonus slot;
  otherwise the bonus slot holds its clamped value.
\<close>

theorem validate_bonus_slot:
  assumes "1 \<le> frames"
  shows "validate frames strike input (frames * 2 + 1) =
     (if js_lt (js_add (clamp_loop frames strike 1 input (frames * 2 - 1))
                       (clamp_loop frames strike 1 input (frames * 2))) (Some strike)
      then None
      else clamp_loop frames strike 1 input (frames * 2 + 1)) \<and>
   clamp_loop frames strike 1 input (frames * 2 - 1) = clampValue strike (input (frames * 2 - 1)) \<and>
   clamp_loop frames strike 1 input (frames * 2) = clampValue strike (input (frames * 2)) \<and>
   clamp_loop frames strike 1 input (frames * 2 + 1) = clampValue strike (input (frames * 2 + 1))"
proof -
  have "validate frames strike input (frames * 2 + 1) =
     (if js_lt (js_add (clamp_loop frames strike 1 input (frames * 2 - 1))
                       (clamp_loop frames strike 1 input (frames * 2))) (Some strike)
      then None
      else clamp_loop frames strike 1 input (frames * 2 + 1))"
    using assms validate_apply[of frames strike input "frames * 2 + 1"]
    by (simp add: last_open_def)
  moreover have "clamp_loop frames strike 1 input j = clampValue strike (input j)"
    if "1 \<le> j" "j \<le> frames * 2 + 1" for j
    using that by (simp add: clamp_loop_apply)
  ultimately show ?thesis using assms by simp
qed

text \<open>Witness of C8: the last frame is 3 and 4, and the 9 of the bonus slot is erased.\<close>

theorem validate_bonus_slot_witness:
  "(1::nat) \<le> 10 \<and> validate 10 10 open_last 21 = None"
  using validate_bonus_slot[of 10 10 open_last]
  by (simp add: clampValue_def open_last_def)

section \<open>The lookahead of frameTotal\<close>

lemma next_throw_found:
  "input (t + 1) = Some v \<Longrightarrow> t \<le> frames * 2 + 1 \<Longrightarrow> next_throw frames input t = Some (Inr (t + 1))"
  by (subst next_throw.simps) (simp add: isNaN_def)

lemma next_throw_skip:
  "input (t + 1) = None \<Longrightarrow> next_throw frames input t = next_throw frames input (t + 1)"
  by (subst next_throw.simps) (simp add: isNaN_def)

lemma next_throw_returns_recorded:
  assumes "next_throw frames input t = Some y"
  shows "\<exists>k>t. input k \<noteq> None"
proof (rule next_throw.raw_induct[where P = "\<lambda>frames input t y. \<exists>k>t. input k \<noteq> None", OF _ assms],
    goal_cases)
  case (1 nxt frames input throws y)
  show ?case
  proof (cases "isNaN (input (throws + 1))")
    case True
    with 1 obtain k where "k > throws + 1" "input k \<noteq> None" by fastforce
    then show ?thesis by (intro exI[of _ k]) simp
  next
    case False
    then show ?thesis by (intro exI[of _ "throws + 1"]) (simp add: isNaN_def)
  qed
qed

lemma next_throw_diverges:
  "(\<forall>k>t. input k = None) \<Longrightarrow> next_throw frames input t = None"
  using next_throw_returns_recorded[of frames input t] by (cases "next_throw frames input t") auto

text \<open>The helper returns exactly when some slot after \<open>throws\<close> is recorded.\<close>

lemma next_throw_first_recorded:
  assumes "t < k" "input k = Some v" "\<forall>j. t < j \<and> j < k \<longrightarrow> input j = None"
  shows "next_throw frames input t =
    (if k > frames * 2 + 2 then Some (Inl InvalidFrameAccess) else Some (Inr k))"
  using assms
proof (induction "k - t" arbitrary: t)
  case 0
  then show ?case by simp
next
  case (Suc d)
  show ?case
  proof (cases "t + 1 = k")
    case True
    then show ?thesis
      using Suc.prems by (subst next_throw.simps) (auto simp: isNaN_def)
  next
    case False
    then have lt: "t + 1 < k" using Suc.prems by simp
    then have "input (t + 1) = None" using Suc.prems by simp
    then have "next_throw frames input t = next_throw frames input (t + 1)"
      by (rule next_throw_skip)
    also have "\<dots> = (if k > frames * 2 + 2 then Some (Inl InvalidFrameAccess) else Some (Inr k))"
    proof (rule Suc.hyps(1))
      show "d = k - (t + 1)" using Suc.hyps(2) by simp
      show "t + 1 < k" by (rule lt)
      show "input k = Some v" by (rule Suc.prems(2))
      show "\<forall>j. t + 1 < j \<and> j < k \<longrightarrow> input j = None" using Suc.prems(3) by simp
    qed
    finally show ?thesis .
  qed
qed

lemma next_throw_None_iff:
  "next_throw frames input t = None \<longleftrightarrow> (\<forall>k>t. input k = None)"
proof
  assume n: "next_throw frames input t = None"
  show "\<forall>k>t. input k = None"
  proof (rule ccontr)
    assume "\<not> (\<forall>k>t. input k = None)"
    then have ex: "\<exists>k. t < k \<and> input k \<noteq> None" by blast
    define k where "k = (LEAST k. t < k \<and> input k \<noteq> None)"
    have k: "t < k \<and> input k \<noteq> None" unfolding k_def using ex by (rule LeastI_ex)
    have least: "\<forall>j. t < j \<and> j < k \<longrightarrow> input j = None"
      unfolding k_def using not_less_Least by blast
    obtain v where "input k = Some v" using k by auto
    then have "next_throw frames input t \<noteq> None"
      using next_throw_first_recorded[of t k input v frames] k least by simp
    then show False using n by simp
  qed
next
  assume "\<forall>k>t. input k = None"
  then show "next_throw frames input t = None" by (rule next_throw_diverges)
qed

text \<open>
  C4 does not hold of the code. The helper tests \<^verbatim>\<open>isNaN(input[throws + 1])\<close> before it
  tests \<^verbatim>\<open>throws > frames * 2 + 1\<close>, and every index beyond the array reads as
  \<^verbatim>\<open>undefined\<close>: once no recorded slot follows, each call makes another and the
  \<^verbatim>\<open>throw\<close> is never reached. In a game of ten frames whose only throw is a strike in
  the first frame, the call \<^verbatim>\<open>next(1)\<close> does not return.
\<close>

theorem next_throw_runs_past_end:
  "next_throw 10 strike_only 1 = None"
  by (rule next_throw_diverges) (simp add: strike_only_def)

lemma validate_strike_only: "validate 10 10 strike_only = strike_only"
proof
  fix i
  show "validate 10 10 strike_only i = strike_only i"
    by (auto simp: validate_apply clamp_loop_apply strike_only_def clampValue_def
        last_open_def repairValue_def)
qed

text \<open>
  C5 does not hold of the code, for the same reason as C4. For the validated game whose only
  throw is a strike in the first frame, the bonus lookahead of the first frame runs past the
  end of the sequence, and \<^verbatim>\<open>frameTotal\<close> neither pushes a subtotal for that frame nor
  returns the subtotal sequence.
\<close>

theorem frameTotal_strike_only_no_result:
  "frameTotal 10 10 (validate 10 10 strike_only) = None"
  unfolding validate_strike_only
  by (simp add: frameTotal_def frameTotal_run_def frameTotal_loop.simps frame_body_def
      frame_score_def strike_only_def and_then_def next_throw_diverges)

section \<open>All strikes\<close>

lemma frame_score_all_strikes_regular:
  assumes "odd t" "t \<le> 17"
  shows "frame_score 10 10 all_strikes t = Some (Inr (Some 30))"
proof -
  have a: "all_strikes t = Some 10" "all_strikes (t + 1) = None" "all_strikes (t + 2) = Some 10"
    using assms by (auto simp: all_strikes_def)
  have n1: "next_throw 10 all_strikes t = Some (Inr (t + 2))"
    using a assms next_throw_skip[of all_strikes t 10] next_throw_found[of all_strikes "t + 1" 10 10]
    by (simp add: numeral_2_eq_2)
  have b: "t + 2 < 19 \<Longrightarrow> all_strikes (t + 3) = None \<and> all_strikes (t + 4) = Some 10"
    using assms by (auto simp: all_strikes_def)
  have c: "t + 2 = 19 \<Longrightarrow> all_strikes (t + 3) = Some 10"
    by (auto simp: all_strikes_def)
  have n2: "\<exists>k. next_throw 10 all_strikes (t + 2) = Some (Inr k) \<and> all_strikes k = Some 10"
  proof (cases "t + 2 = 19")
    case True
    then show ?thesis
      using c next_throw_found[of all_strikes "t + 2" 10 10] by (simp add: eval_nat_numeral)
  next
    case False
    then have "t + 2 < 19" using assms by presburger
    then show ?thesis
      using b assms next_throw_skip[of all_strikes "t + 2" 10]
        next_throw_found[of all_strikes "t + 3" 10 10]
      by (simp add: eval_nat_numeral)
  qed
  then obtain k where k: "next_throw 10 all_strikes (t + 2) = Some (Inr k)" "all_strikes k = Some 10"
    by blast
  show ?thesis
    using a n1 k by (simp add: frame_score_def and_then_def capStrike_def)
qed

lemma frame_score_all_strikes_last:
  "frame_score 10 10 all_strikes 19 = Some (Inr (Some 30))"
proof -
  have a: "all_strikes 19 = Some 10" "all_strikes 20 = Some 10" "all_strikes 21 = Some 10"
    by (simp_all add: all_strikes_def)
  have n1: "next_throw 10 all_strikes 19 = Some (Inr 20)"
    using next_throw_found[of all_strikes 19 10 10] a by simp
  have n2: "next_throw 10 all_strikes 20 = Some (Inr 21)"
    using next_throw_found[of all_strikes 20 10 10] a by simp
  show ?thesis
    by (simp add: frame_score_def a n1 n2 and_then_def capStrike_def)
qed

lemma frame_body_all_strikes:
  assumes "odd t" "t \<le> 19"
  shows "frame_body 10 10 t \<lparr>input_array = all_strikes, result_array = r\<rparr> =
    Some \<lparr>input_array = all_strikes, result_array = r @ [Some 30]\<rparr>"
proof (cases "t = 19")
  case True
  then show ?thesis by (simp add: frame_body_def frame_score_all_strikes_last push_def)
next
  case False
  then have "t \<le> 17" using assms by presburger
  then show ?thesis using assms by (simp add: frame_body_def frame_score_all_strikes_regular push_def)
qed

lemma frameTotal_all_strikes:
  "frameTotal 10 10 all_strikes =
     Some [Some 30, Some 30, Some 30, Some 30, Some 30, Some 30, Some 30, Some 30, Some 30, Some 30]"
  by (simp add: frameTotal_def frameTotal_run_def frameTotal_loop.simps frame_body_all_strikes)

lemma toString_300: "toString 300 = ''300''"
  by code_simp

lemma validate_all_strikes: "validate 10 10 all_strikes = all_strikes"
proof
  fix i
  show "validate 10 10 all_strikes i = all_strikes i"
    by (auto simp: validate_apply clamp_loop_apply all_strikes_def clampValue_def
        last_open_def repairValue_def)
qed

text \<open>
  C6. With ten frames and a strike value of ten, for the sequence whose first throw of every
  frame is 10, whose two trailing slots are 10 and 10 and whose other slots are unrecorded,
  \<^verbatim>\<open>frameTotal\<close> returns the subtotal 30 for each of the ten frames, the total is 300
  and is shown as such; validation leaves that sequence as it is.
\<close>

theorem all_strikes_score:
  "frameTotal 10 10 all_strikes =
     Some [Some 30, Some 30, Some 30, Some 30, Some 30, Some 30, Some 30, Some 30, Some 30, Some 30] \<and>
   map_option total (frameTotal 10 10 all_strikes) = Some (Some 300) \<and>
   map_option total_cell (frameTotal 10 10 all_strikes) = Some ''300'' \<and>
   validate 10 10 all_strikes = all_strikes"
  unfolding frameTotal_all_strikes validate_all_strikes
  by (simp add: total_def total_cell_def toString_300)

section \<open>The subtotal row\<close>

lemma complete_sum_append: "complete_sum (xs @ ys) = complete_sum xs + complete_sum ys"
  by (induction xs rule: complete_sum.induct) simp_all

lemma complete_sum_take_Suc:
  "complete_sum (take (Suc k) xs) =
     complete_sum (take k xs) + (case at_index xs k of None \<Rightarrow> 0 | Some v \<Rightarrow> v)"
proof (cases "k < length xs")
  case True
  then show ?thesis
    by (cases "xs ! k") (simp_all add: take_Suc_conv_app_nth complete_sum_append at_index_def)
next
  case False
  then show ?thesis by (simp add: at_index_def)
qed

lemma subtotal_cells_eq:
  "1 \<le> frame \<Longrightarrow> acc = complete_sum (take (frame - 1) subtotal) \<Longrightarrow>
     subtotal_cells frames subtotal frame acc = map (shown_cell subtotal) [frame - 1..<frames]"
proof (induction frames subtotal frame acc rule: subtotal_cells.induct)
  case (1 frames subtotal frame acc)
  show ?case
  proof (cases "frame \<le> frames")
    case False
    then show ?thesis by (subst subtotal_cells.simps) simp
  next
    case True
    have range: "[frame - 1..<frames] = (frame - 1) # [frame..<frames]"
      using True "1.prems"(1) by (simp add: upt_conv_Cons)
    have tk: "complete_sum (take frame subtotal) =
        acc + (case at_index subtotal (frame - 1) of None \<Rightarrow> 0 | Some v \<Rightarrow> v)"
      using complete_sum_take_Suc[of "frame - 1" subtotal] "1.prems" by simp
    show ?thesis
    proof (cases "at_index subtotal (frame - 1)")
      case None
      have "subtotal_cells frames subtotal (frame + 1) acc = map (shown_cell subtotal) [frame..<frames]"
        using "1.IH"(1)[OF True None] tk None by simp
      then show ?thesis
        using True None range by (subst subtotal_cells.simps) (simp add: shown_cell_def)
    next
      case (Some v)
      have "subtotal_cells frames subtotal (frame + 1) (acc + v) = map (shown_cell subtotal) [frame..<frames]"
        using "1.IH"(2)[OF True Some] tk Some by simp
      then show ?thesis
        using True Some range tk "1.prems"(1)
        by (subst subtotal_cells.simps) (simp add: shown_cell_def)
    qed
  qed
qed

lemma toString_7: "toString 7 = ''7''"
  by code_simp

lemma validate_second_frame_only: "validate 2 10 second_frame_only = second_frame_only"
proof
  fix i
  show "validate 2 10 second_frame_only i = second_frame_only i"
    by (auto simp: validate_apply clamp_loop_apply second_frame_only_def clampValue_def
        last_open_def repairValue_def)
qed

lemma frameTotal_second_frame_only: "frameTotal 2 10 second_frame_only = Some [None, Some 7]"
  by (simp add: frameTotal_def frameTotal_run_def frameTotal_loop.simps frame_body_def
      frame_score_def second_frame_only_def isNaN_def push_def)

text \<open>
  C1, as stated, fails: with two frames and a strike value of ten, when the first frame lacks
  its second throw and the second frame is 3 and 4, the subtotals are incomplete and 7, and
  the cell of the second frame shows 7 although the first frame is incomplete.
\<close>

theorem later_frame_shown_counterexample:
  "frameTotal 2 10 (validate 2 10 second_frame_only) = Some [None, Some 7] \<and>
   subtotal_cells 2 [None, Some 7] 1 0 = [''&nbsp;'', ''7'']"
  unfolding validate_second_frame_only frameTotal_second_frame_only
  by (simp add: subtotal_cells.simps at_index_def toString_7)

lemma subtotal_cells_nth:
  assumes "k < frames"
  shows "subtotal_cells frames subtotal 1 0 ! k =
     (case at_index subtotal k of
        None \<Rightarrow> ''&nbsp;''
      | Some v \<Rightarrow> toString (complete_sum (take (Suc k) subtotal)))"
proof -
  have "subtotal_cells frames subtotal 1 0 = map (shown_cell subtotal) [0..<frames]"
    using subtotal_cells_eq[of 1 0 subtotal frames] by simp
  then show ?thesis using assms by (simp add: shown_cell_def)
qed

lemma foldl_js_add_None: "foldl js_add None xs = None"
  by (induction xs) simp_all

lemma foldl_js_add_Some:
  "foldl js_add (Some a) xs = (if None \<in> set xs then None else Some (a + complete_sum xs))"
proof (induction xs arbitrary: a)
  case Nil
  then show ?case by simp
next
  case (Cons x xs)
  show ?case
  proof (cases x)
    case None
    then show ?thesis by (simp add: foldl_js_add_None)
  next
    case (Some v)
    then show ?thesis using Cons.IH[of "a + v"] by (auto simp: add.assoc)
  qed
qed

lemma total_cell_eq:
  "total_cell subtotal =
     (if None \<in> set subtotal then ''&nbsp;'' else toString (complete_sum subtotal))"
  by (simp add: total_cell_def total_def foldl_js_add_Some)

text \<open>
  C1, amended. The cell of a frame is blank exactly when the subtotal of that frame itself is
  incomplete; the cell of a frame whose subtotal is complete shows the sum of the complete
  subtotals up to and including that frame, incomplete frames before it being skipped.
  Only the cell of the grand total is blank whenever any frame is incomplete; when every
  frame is complete it shows the sum of all subtotals.
\<close>

theorem subtotal_cells_skip_incomplete:
  "(k < frames \<longrightarrow>
      subtotal_cells frames subtotal 1 0 ! k =
        (case at_index subtotal k of
           None \<Rightarrow> ''&nbsp;''
         | Some v \<Rightarrow> toString (complete_sum (take (Suc k) subtotal)))) \<and>
   total_cell subtotal =
     (if None \<in> set subtotal then ''&nbsp;'' else toString (complete_sum subtotal))"
  using subtotal_cells_nth[of k frames subtotal] total_cell_eq[of subtotal] by blast

text \<open>
  Witness of C1: the second of two cells, after an incomplete first frame, shows 7 and the
  cell of the total is blank.
\<close>

theorem subtotal_cells_skip_incomplete_witness:
  "(1::nat) < 2 \<and> subtotal_cells 2 [None, Some 7] 1 0 ! 1 = ''7'' \<and>
   total_cell [None, Some 7] = ''&nbsp;''"
  using subtotal_cells_skip_incomplete[of 1 2 "[None, Some 7]"]
  by (simp add: at_index_def toString_7)

section \<open>Glyphs\<close>

lemma toString_5: "toString 5 = ''5''"
  by code_simp

text \<open>
  C3, as stated, fails at the second slot of the last frame after a strike: with one frame
  and a strike value of ten, the validated sequence holds 10 and 5, the sum of slot 2 and
  slot 1 reaches the strike value, and the glyph of slot 2 is the numeral, not the spare
  sign.
\<close>

theorem last_frame_second_glyph_counterexample:
  "validate 1 10 last_strike 1 = Some 10 \<and> validate 1 10 last_strike 2 = Some 5 \<and>
   throwString 1 10 (validate 1 10 last_strike) 2 = ''5''"
  unfolding validate_last_strike by (simp add: last_strike_def throwString_def before_def toString_5)

text \<open>
  C3, amended. For every throw sequence and every slot holding a recorded value: an
  odd-indexed slot, and slot \<open>frames * 2\<close> (the second slot of the last frame) when the slot
  before it reaches the strike value, show \<^verbatim>\<open>X\<close> when the value reaches the strike value,
  \<^verbatim>\<open>G\<close> when it is 0 and the numeral otherwise; every other even-indexed slot shows
  \<^verbatim>\<open>/\<close> when its value plus the value of the slot before it reaches the strike value,
  \<^verbatim>\<open>-\<close> when the value is 0 and the numeral otherwise.
\<close>

theorem throwString_positions:
  assumes "input t = Some v"
  shows "(odd t \<or> (t = frames * 2 \<and> js_ge (before input t) (Some strike)) \<longrightarrow>
            throwString frames strike input t =
              (if v \<ge> strike then ''X'' else if v = 0 then ''G'' else toString v)) \<and>
         (even t \<and> \<not> (t = frames * 2 \<and> js_ge (before input t) (Some strike)) \<longrightarrow>
            throwString frames strike input t =
              (if js_ge (js_add (Some v) (before input t)) (Some strike) then ''/''
               else if v = 0 then ''-'' else toString v))"
  using assms by (auto simp: throwString_def odd_iff_mod_2_eq_one)

text \<open>Witness of C3: the spare 5 and 5 of a first frame.\<close>

theorem throwString_positions_witness:
  "spare_frame 2 = Some 5 \<and> throwString 10 10 spare_frame 2 = ''/'' \<and>
   spare_frame 1 = Some 5 \<and> throwString 10 10 spare_frame 1 = ''5''"
  using throwString_positions[of spare_frame 2 5 10 10] throwString_positions[of spare_frame 1 5 10 10]
  by (simp add: spare_frame_def before_def toString_5)

section \<open>frameTotal and its argument\<close>

lemma frame_body_input: "frame_body frames strike throws st = Some st' \<Longrightarrow> input_array st' = input_array st"
  by (auto simp: frame_body_def push_def split: option.splits sum.splits)

lemma frameTotal_loop_input:
  "frameTotal_loop frames strike throws st = Some st' \<Longrightarrow> input_array st' = input_array st"
proof (induction frames strike throws st rule: frameTotal_loop.induct)
  case (1 frames strike throws st)
  show ?case
  proof (cases "throws \<le> frames * 2")
    case False
    then show ?thesis using "1.prems" by (simp add: frameTotal_loop.simps)
  next
    case True
    then obtain st1 where b: "frame_body frames strike throws st = Some st1"
      and l: "frameTotal_loop frames strike (throws + 2) st1 = Some st'"
      using "1.prems" by (subst (asm) frameTotal_loop.simps) (auto split: option.splits)
    have "input_array st' = input_array st1" using "1.IH"[OF True b l] .
    then show ?thesis using frame_body_input[OF b] by simp
  qed
qed

text \<open>
  C10. \<^verbatim>\<open>frameTotal\<close> does not write to its argument: when it returns, every slot of the
  throw sequence is as it was, the subtotals having been pushed to the array it created.
\<close>

theorem frameTotal_keeps_input:
  assumes "frameTotal_run frames strike input = Some st"
  shows "input_array st = input"
  using frameTotal_loop_input[OF assms[unfolded frameTotal_run_def]] by simp

text \<open>Witness of C10: one frame, 3 and 4.\<close>

theorem frameTotal_keeps_input_witness:
  "frameTotal_run 1 10 open_frame = Some \<lparr>input_array = open_frame, result_array = [Some 7]\<rparr> \<and>
   input_array \<lparr>input_array = open_frame, result_array = [Some 7]\<rparr> = open_frame"
proof -
  have r: "frameTotal_run 1 10 open_frame = Some \<lparr>input_array = open_frame, result_array = [Some 7]\<rparr>"
    by (simp add: frameTotal_run_def frameTotal_loop.simps frame_body_def frame_score_def
        open_frame_def isNaN_def push_def)
  show ?thesis using frameTotal_keeps_input[OF r] r by simp
qed

end
